theory Spec2Isabelle
  imports Main "HOL-Library.Sublist"
begin

section \<open>The host: file tree, working directory, text codec\<close>

text \<open>
  The plugin of \<^verbatim>\<open>plugins/repo_file_plugin.py\<close> talks to the operating system through
  \<^verbatim>\<open>open\<close>, \<^verbatim>\<open>os.listdir\<close>, \<^verbatim>\<open>os.walk\<close> and \<^verbatim>\<open>os.path\<close>. The host is modelled as a
  tree of directories and regular files. A directory keeps its entries in the order in
  which the system enumerates them. The flag of a node says whether the process may use
  it: read it (a file), list and search it (a directory). Symbolic links and a path
  length limit are not part of the model. A Python \<^verbatim>\<open>str\<close> and the
  bytes of a file are both a \<^typ>\<open>string\<close>; a \<^verbatim>\<open>str\<close> is represented by its UTF-8 bytes.
\<close>

datatype node = File bool string | Dir bool "(string \<times> node) list"

record host =
  tree :: node
  cwd :: "string list"
  decode :: "string \<Rightarrow> string option"

datatype errno = ENOENT | ENOTDIR | EACCES | ENAMETOOLONG

datatype exc_args = Errno string | Message string

datatype error =
    FileNotFoundError exc_args
  | NotADirectoryError string
  | IsADirectoryError string
  | PermissionError string
  | OSError string
  | ValueError
  | UnicodeDecodeError
  | IndexError

fun is_dir :: "node \<Rightarrow> bool" where
  "is_dir (Dir ok es) = True"
| "is_dir (File ok bs) = False"

fun node_at :: "node \<Rightarrow> string list \<Rightarrow> node option" where
  "node_at t [] = Some t"
| "node_at (File ok bs) (n # ns) = None"
| "node_at (Dir ok es) (n # ns) =
     (case map_of es n of None \<Rightarrow> None | Some c \<Rightarrow> node_at c ns)"

subsection \<open>\<^verbatim>\<open>posixpath\<close>\<close>

definition sep :: char where
  "sep = CHR ''/''"

text \<open>\<^verbatim>\<open>s.startswith('/')\<close> and \<^verbatim>\<open>s.endswith('/')\<close>.\<close>

fun startswith_sep :: "string \<Rightarrow> bool" where
  "startswith_sep [] = False"
| "startswith_sep (c # cs) = (c = sep)"

definition endswith_sep :: "string \<Rightarrow> bool" where
  "endswith_sep s = (s \<noteq> [] \<and> last s = sep)"

text \<open>\<^verbatim>\<open>s.split('/')\<close>: never empty, \<^verbatim>\<open>''.split('/') == ['']\<close>.\<close>

fun split_sep :: "string \<Rightarrow> string list" where
  "split_sep [] = [[]]"
| "split_sep (c # cs) =
     (if c = sep then [] # split_sep cs
      else (case split_sep cs of [] \<Rightarrow> [[c]] | w # ws \<Rightarrow> (c # w) # ws))"

text \<open>\<^verbatim>\<open>'/'.join(comps)\<close>.\<close>

fun join_sep :: "string list \<Rightarrow> string" where
  "join_sep [] = []"
| "join_sep [w] = w"
| "join_sep (w # v # ws) = w @ sep # join_sep (v # ws)"

text \<open>
  \<^verbatim>\<open>os.path.join(a, b)\<close> with two arguments:
  \<^verbatim>\<open>
    if b.startswith(sep) or not path: path = b
    elif path.endswith(sep): path += b
    else: path += sep + b
  \<close>
\<close>

definition join :: "string \<Rightarrow> string \<Rightarrow> string" where
  "join a b =
     (if startswith_sep b \<or> a = [] then b
      else if endswith_sep a then a @ b
      else a @ sep # b)"

text \<open>
  \<^verbatim>\<open>os.path.dirname(p)\<close>:
  \<^verbatim>\<open>
    i = p.rfind(sep) + 1
    head = p[:i]
    if head and head != sep*len(head): head = head.rstrip(sep)
    return head
  \<close>
\<close>

definition rstrip_sep :: "string \<Rightarrow> string" where
  "rstrip_sep s = rev (dropWhile (\<lambda>c. c = sep) (rev s))"

definition dirname :: "string \<Rightarrow> string" where
  "dirname p =
     (let head = rev (dropWhile (\<lambda>c. c \<noteq> sep) (rev p))
      in if head \<noteq> [] \<and> head \<noteq> replicate (length head) sep then rstrip_sep head else head)"

text \<open>
  \<^verbatim>\<open>os.path.normpath(path)\<close>: the loop over the components keeps a stack
  \<^verbatim>\<open>new_comps\<close>; \<^verbatim>\<open>initial_slashes\<close> is 0, 1 or 2.
\<close>

definition initial_slashes :: "string \<Rightarrow> nat" where
  "initial_slashes path =
     (if \<not> startswith_sep path then 0
      else if startswith_sep (tl path) \<and> \<not> startswith_sep (tl (tl path)) then 2
      else 1)"

fun norm_comps :: "nat \<Rightarrow> string list \<Rightarrow> string list \<Rightarrow> string list" where
  "norm_comps k new_comps [] = new_comps"
| "norm_comps k new_comps (c # comps) =
     (if c = [] \<or> c = ''.'' then norm_comps k new_comps comps
      else if c \<noteq> ''..'' \<or> (k = 0 \<and> new_comps = [])
              \<or> (new_comps \<noteq> [] \<and> last new_comps = ''..'')
        then norm_comps k (new_comps @ [c]) comps
      else if new_comps \<noteq> [] then norm_comps k (butlast new_comps) comps
      else norm_comps k new_comps comps)"

definition normpath :: "string \<Rightarrow> string" where
  "normpath path =
     (if path = [] then ''.''
      else let k = initial_slashes path;
               p = replicate k sep @ join_sep (norm_comps k [] (split_sep path))
           in if p = [] then ''.'' else p)"

text \<open>
  \<^verbatim>\<open>os.getcwd()\<close> is the absolute path of the working directory, and
  \<^verbatim>\<open>os.path.abspath(path)\<close> is
  \<^verbatim>\<open>normpath(path if path.startswith('/') else join(os.getcwd(), path))\<close>.
\<close>

definition getcwd :: "host \<Rightarrow> string" where
  "getcwd h = sep # join_sep (cwd h)"

definition abspath :: "host \<Rightarrow> string \<Rightarrow> string" where
  "abspath h path =
     normpath (if startswith_sep path then path else join (getcwd h) path)"

subsection \<open>Path resolution by the system\<close>

text \<open>
  The system resolves a path component by component, from the root for an absolute path
  and from the working directory otherwise. A location is the list of entry names that
  leads from the root to a node. Looking a component up needs a directory that may be
  searched; an empty component and \<^verbatim>\<open>.\<close> stay, \<^verbatim>\<open>..\<close> goes up (the root is its own
  parent). A name that the directory does not hold is reported as too long when it has
  more than 255 bytes, and as missing otherwise. The empty path does not resolve.
\<close>

definition step :: "node \<Rightarrow> string list \<Rightarrow> string \<Rightarrow> errno + string list" where
  "step t loc c =
     (case node_at t loc of
        None \<Rightarrow> Inl ENOENT
      | Some (File ok bs) \<Rightarrow> Inl ENOTDIR
      | Some (Dir ok es) \<Rightarrow>
          if \<not> ok then Inl EACCES
          else if c = [] \<or> c = ''.'' then Inr loc
          else if c = ''..'' then Inr (butlast loc)
          else (case map_of es c of
                  None \<Rightarrow> Inl (if 255 < length c then ENAMETOOLONG else ENOENT)
                | Some d \<Rightarrow> Inr (loc @ [c])))"

fun steps :: "node \<Rightarrow> string list \<Rightarrow> string list \<Rightarrow> errno + string list" where
  "steps t loc [] = Inr loc"
| "steps t loc (c # cs) =
     (case step t loc c of Inl e \<Rightarrow> Inl e | Inr loc' \<Rightarrow> steps t loc' cs)"

definition resolve :: "host \<Rightarrow> string \<Rightarrow> errno + string list" where
  "resolve h path =
     (if path = [] then Inl ENOENT
      else steps (tree h) (if startswith_sep path then [] else cwd h) (split_sep path))"

definition os_error :: "errno \<Rightarrow> string \<Rightarrow> error" where
  "os_error e path =
     (case e of
        ENOENT \<Rightarrow> FileNotFoundError (Errno path)
      | ENOTDIR \<Rightarrow> NotADirectoryError path
      | EACCES \<Rightarrow> PermissionError path
      | ENAMETOOLONG \<Rightarrow> OSError path)"

subsection \<open>\<^verbatim>\<open>open(path).read()\<close>, \<^verbatim>\<open>os.listdir\<close>, \<^verbatim>\<open>os.walk\<close>\<close>

text \<open>
  \<^verbatim>\<open>open(path)\<close> opens in text mode with the default encoding and \<^verbatim>\<open>newline=None\<close>:
  \<^verbatim>\<open>read()\<close> decodes the bytes and then turns every \<^verbatim>\<open>\r\n\<close> and every other \<^verbatim>\<open>\r\<close>
  into \<^verbatim>\<open>\n\<close>. For a path that holds a NUL character \<^verbatim>\<open>open\<close> and \<^verbatim>\<open>os.listdir\<close>
  raise \<^verbatim>\<open>ValueError\<close>; no entry name of a file system holds one, so such a path names
  nothing.
\<close>

definition NUL :: char where
  "NUL = CHR 0x00"

definition path_error :: "errno \<Rightarrow> string \<Rightarrow> error" where
  "path_error e path = (if NUL \<in> set path then ValueError else os_error e path)"

definition CR :: char where
  "CR = CHR 0x0D"

definition LF :: char where
  "LF = CHR 0x0A"

fun universal_newlines :: "string \<Rightarrow> string" where
  "universal_newlines [] = []"
| "universal_newlines [c] = [if c = CR then LF else c]"
| "universal_newlines (c # d # cs) =
     (if c = CR \<and> d = LF then LF # universal_newlines cs
      else if c = CR then LF # universal_newlines (d # cs)
      else c # universal_newlines (d # cs))"

definition read_at :: "host \<Rightarrow> string \<Rightarrow> string list \<Rightarrow> error + string" where
  "read_at h path loc =
     (case node_at (tree h) loc of
        None \<Rightarrow> Inl (FileNotFoundError (Errno path))
      | Some (Dir ok es) \<Rightarrow>
          Inl (if ok then IsADirectoryError path else PermissionError path)
      | Some (File ok bs) \<Rightarrow>
          if \<not> ok then Inl (PermissionError path)
          else (case decode h bs of
                  None \<Rightarrow> Inl UnicodeDecodeError
                | Some s \<Rightarrow> Inr (universal_newlines s)))"

definition open_read :: "host \<Rightarrow> string \<Rightarrow> error + string" where
  "open_read h path =
     (case resolve h path of
        Inl e \<Rightarrow> Inl (path_error e path)
      | Inr loc \<Rightarrow> read_at h path loc)"

definition listdir :: "host \<Rightarrow> string \<Rightarrow> error + string list" where
  "listdir h path =
     (case resolve h path of
        Inl e \<Rightarrow> Inl (path_error e path)
      | Inr loc \<Rightarrow>
          (case node_at (tree h) loc of
             None \<Rightarrow> Inl (FileNotFoundError (Errno path))
           | Some (File ok bs) \<Rightarrow> Inl (NotADirectoryError path)
           | Some (Dir ok es) \<Rightarrow>
               if ok then Inr (map fst es) else Inl (PermissionError path)))"

text \<open>
  \<^verbatim>\<open>os.walk(top)\<close>, top-down, not following links, \<^verbatim>\<open>onerror=None\<close>: a directory
  that cannot be scanned yields nothing; otherwise it yields
  \<^verbatim>\<open>(top, dirs, nondirs)\<close> and then walks \<^verbatim>\<open>join(top, d)\<close> for each \<^verbatim>\<open>d\<close> of
  \<^verbatim>\<open>dirs\<close> in turn.
\<close>

type_synonym walk_item = "string \<times> string list \<times> string list"

fun walk :: "string \<Rightarrow> node \<Rightarrow> walk_item list"
  and walk_dirs :: "string \<Rightarrow> (string \<times> node) list \<Rightarrow> walk_item list" where
  "walk topdir (File ok bs) = []"
| "walk topdir (Dir ok es) =
     (if \<not> ok then []
      else (topdir, map fst (filter (\<lambda>e. is_dir (snd e)) es),
                 map fst (filter (\<lambda>e. \<not> is_dir (snd e)) es))
           # walk_dirs topdir es)"
| "walk_dirs topdir [] = []"
| "walk_dirs topdir (e # es) =
     (if is_dir (snd e) then walk (join topdir (fst e)) (snd e) else []) @ walk_dirs topdir es"

definition os_walk :: "host \<Rightarrow> string \<Rightarrow> walk_item list" where
  "os_walk h topdir =
     (case resolve h topdir of
        Inl e \<Rightarrow> []
      | Inr loc \<Rightarrow> (case node_at (tree h) loc of None \<Rightarrow> [] | Some d \<Rightarrow> walk topdir d))"

section \<open>\<^verbatim>\<open>plugins/repo_file_plugin.py\<close>\<close>

text \<open>
  The plugin object has one field. An operation takes the state (the object and what
  has been printed to standard output, one entry per \<^verbatim>\<open>print\<close>) and returns its result,
  \<open>Inl\<close> for a raised exception, with the state after the call.
\<close>

record RepoFilePlugin =
  root_dir :: string

record pstate =
  self :: RepoFilePlugin
  stdout :: "string list"

text \<open>
  \<^verbatim>\<open>__init__\<close>: \<^verbatim>\<open>os.path.abspath(os.path.join(os.path.dirname(__file__), ".."))\<close>;
  the module's \<^verbatim>\<open>__file__\<close> is a parameter.
\<close>

definition init :: "host \<Rightarrow> string \<Rightarrow> RepoFilePlugin" where
  "init h file = \<lparr>root_dir = abspath h (join (dirname file) ''..'')\<rparr>"

definition not_found_file :: "string \<Rightarrow> error" where
  "not_found_file p = FileNotFoundError (Message (''File '' @ p @ '' not found in repository.''))"

definition not_found_directory :: "string \<Rightarrow> error" where
  "not_found_directory p =
     FileNotFoundError (Message (''Directory '' @ p @ '' not found in repository.''))"

definition read_file_by_path :: "host \<Rightarrow> string \<Rightarrow> pstate \<Rightarrow> (error + string) \<times> pstate" where
  "read_file_by_path h path s =
     (let full_path = join (root_dir (self s)) path
      in case open_read h full_path of
           Inr text \<Rightarrow> (Inr text, s)
         | Inl (FileNotFoundError a) \<Rightarrow> (Inl (not_found_file full_path), s)
         | Inl e \<Rightarrow> (Inl e, s))"

text \<open>The loop of \<^verbatim>\<open>read_file_by_name\<close> over what \<^verbatim>\<open>os.walk\<close> yields.\<close>

fun search :: "host \<Rightarrow> string \<Rightarrow> walk_item list \<Rightarrow> pstate \<Rightarrow> (error + string) \<times> pstate" where
  "search h file_name [] s = (Inl (not_found_file file_name), s)"
| "search h file_name ((root, dirs, files) # rest) s =
     (if file_name \<in> set files
      then (open_read h (join root file_name),
            s\<lparr>stdout := stdout s @ [''Found file '' @ file_name @ '' in '' @ root @ ''.'']\<rparr>)
      else search h file_name rest s)"

definition read_file_by_name :: "host \<Rightarrow> string \<Rightarrow> pstate \<Rightarrow> (error + string) \<times> pstate" where
  "read_file_by_name h file_name s = search h file_name (os_walk h (root_dir (self s))) s"

text \<open>\<^verbatim>\<open>"\n".join(files)\<close>.\<close>

fun join_lines :: "string list \<Rightarrow> string" where
  "join_lines [] = []"
| "join_lines [w] = w"
| "join_lines (w # v # ws) = w @ LF # join_lines (v # ws)"

definition list_directory :: "host \<Rightarrow> string \<Rightarrow> pstate \<Rightarrow> (error + string) \<times> pstate" where
  "list_directory h path s =
     (let full_path = join (root_dir (self s)) path
      in case listdir h full_path of
           Inr files \<Rightarrow> (Inr (join_lines files), s)
         | Inl (FileNotFoundError a) \<Rightarrow> (Inl (not_found_directory full_path), s)
         | Inl e \<Rightarrow> (Inl e, s))"

section \<open>\<^verbatim>\<open>main.py\<close>\<close>

text \<open>
  The group chat belongs to the framework. \<^verbatim>\<open>main\<close> is modelled from the point where
  the chat exists: its parameters are the name of \<^verbatim>\<open>agents[0]\<close>, the messages that
  \<^verbatim>\<open>group_chat.invoke()\<close> yields and the messages that
  \<^verbatim>\<open>group_chat.get_chat_messages(agent=agents[0])\<close> yields, each in the order yielded.
  It returns what it printed and how it ended. The \<^verbatim>\<open>name\<close> of a message is optional in
  the framework; an f-string formats \<^verbatim>\<open>None\<close> as \<^verbatim>\<open>None\<close>.
\<close>

record ChatMessageContent =
  name :: "string option"
  content :: string

fun format_name :: "string option \<Rightarrow> string" where
  "format_name None = ''None''"
| "format_name (Some n) = n"

definition responded :: "ChatMessageContent \<Rightarrow> string" where
  "responded response = ''==== '' @ format_name (name response) @ '' just responded ===='' "

definition main ::
  "string \<Rightarrow> ChatMessageContent list \<Rightarrow> ChatMessageContent list
    \<Rightarrow> string list \<times> (error + unit)" where
  "main agent_name responses messages =
     (let printed = map responded responses;
          content_history = filter (\<lambda>message. name message = Some agent_name) messages;
          printed = printed @ [''Final content:'']
      in case content_history of
           [] \<Rightarrow> (printed, Inl IndexError)
         | m # ms \<Rightarrow> (printed @ [content m], Inr ()))"

section \<open>A sample host\<close>

text \<open>
  The \<^verbatim>\<open>ascii\<close> codec decodes bytes below 128 to themselves and fails on any other.
  The sample tree holds the repository under \<^verbatim>\<open>/repo\<close>, with a file that has a
  Windows line ending, files of one name in several directories, a directory and a file
  the process may not use, and a file outside the repository.
\<close>

definition ascii :: "string \<Rightarrow> string option" where
  "ascii bs = (if list_all (\<lambda>b. of_char b < (128::nat)) bs then Some bs else None)"

definition demo_tree :: node where
  "demo_tree = Dir True
     [(''etc'', Dir True [(''passwd'', File True ''root:x:0'')]),
      (''repo'', Dir True
         [(''main.py'', File True (''import os'' @ [CR, LF] @ ''run()'')),
          (''plugins'', Dir True
             [(''repo_file_plugin.py'', File True ''class RepoFilePlugin''),
              (''notes.txt'', File True ''first''),
              (''README.md'', File True ''plugins'')]),
          (''locked'', Dir False [(''hidden.txt'', File True ''h'')]),
          (''docs'', Dir True [(''notes.txt'', File True ''second'')]),
          (''private.key'', File False ''k''),
          (''README.md'', File True ''top'')])]"

definition demo :: host where
  "demo = \<lparr>tree = demo_tree, cwd = [''repo''], decode = ascii\<rparr>"

definition s0 :: pstate where
  "s0 = \<lparr>self = init demo ''/repo/plugins/repo_file_plugin.py'', stdout = []\<rparr>"

definition is_not_found :: "error \<Rightarrow> bool" where
  "is_not_found e = (case e of FileNotFoundError a \<Rightarrow> True | _ \<Rightarrow> False)"

text \<open>A chat of three agents, oldest message first.\<close>

definition team :: "ChatMessageContent list" where
  "team = [\<lparr>name = Some ''ContentCreationAgent'', content = ''draft''\<rparr>,
           \<lparr>name = Some ''CodeValidationAgent'', content = ''looks good''\<rparr>,
           \<lparr>name = Some ''ContentCreationAgent'', content = ''final''\<rparr>,
           \<lparr>name = Some ''UserAgent'', content = ''approved''\<rparr>]"

section \<open>Well-formed trees and the order of a top-down walk\<close>

text \<open>
  In a file system an entry name is not empty, is neither \<^verbatim>\<open>.\<close> nor \<^verbatim>\<open>..\<close>, holds no
  \<^verbatim>\<open>/\<close>, and names one entry of its directory.
\<close>

definition valid_name :: "string \<Rightarrow> bool" where
  "valid_name n = (n \<noteq> [] \<and> n \<noteq> ''.'' \<and> n \<noteq> ''..'' \<and> sep \<notin> set n)"

fun wf_node :: "node \<Rightarrow> bool" and wf_entries :: "(string \<times> node) list \<Rightarrow> bool" where
  "wf_node (File ok bs) = True"
| "wf_node (Dir ok es) = (distinct (map fst es) \<and> wf_entries es)"
| "wf_entries [] = True"
| "wf_entries (e # es) = (valid_name (fst e) \<and> wf_node (snd e) \<and> wf_entries es)"

text \<open>
  The files under a directory in the order of a top-down walk, each by its location: the
  directory's own non-directory entries in listing order, then those of each
  subdirectory in listing order; nothing below a directory that may not be listed. This
  definition follows the words "linear walk, top-down, first encountered", not the loop of
  \<^verbatim>\<open>read_file_by_name\<close>; \<open>first_match\<close> is the first location of the walk from the
  root directory whose last name is the name looked for.
\<close>

fun walk_files :: "string list \<Rightarrow> node \<Rightarrow> string list list"
  and walk_files_in :: "string list \<Rightarrow> (string \<times> node) list \<Rightarrow> string list list" where
  "walk_files loc (File ok bs) = []"
| "walk_files loc (Dir ok es) =
     (if \<not> ok then []
      else map (\<lambda>e. loc @ [fst e]) (filter (\<lambda>e. \<not> is_dir (snd e)) es) @ walk_files_in loc es)"
| "walk_files_in loc [] = []"
| "walk_files_in loc (e # es) =
     (if is_dir (snd e) then walk_files (loc @ [fst e]) (snd e) else []) @ walk_files_in loc es"

definition first_match :: "host \<Rightarrow> string \<Rightarrow> string \<Rightarrow> string list option" where
  "first_match h root file_name =
     (case resolve h root of
        Inl e \<Rightarrow> None
      | Inr loc \<Rightarrow>
          (case node_at (tree h) loc of
             None \<Rightarrow> None
           | Some d \<Rightarrow> find (\<lambda>l. last l = file_name) (walk_files loc d)))"

text \<open>
  For the proofs: the pairs \<^verbatim>\<open>(root, file)\<close> of the items that \<^verbatim>\<open>os.walk\<close> yields, in
  order, and what it means for such a pair to land on a location below \<open>loc\<close>.
\<close>

definition walk_paths :: "walk_item list \<Rightarrow> (string \<times> string) list" where
  "walk_paths items = concat (map (\<lambda>it. map (Pair (fst it)) (snd (snd it))) items)"

definition lands :: "host \<Rightarrow> string list \<Rightarrow> string \<times> string \<Rightarrow> string list \<Rightarrow> bool" where
  "lands h loc rf l =
     (resolve h (join (fst rf) (snd rf)) = Inr l \<and> last l = snd rf \<and> prefix loc l
      \<and> (\<exists>ok bs. node_at (tree h) l = Some (File ok bs)))"

section \<open>Properties\<close>

subsection \<open>The root directory\<close>

lemma startswith_sep_replicate: "0 < k \<Longrightarrow> startswith_sep (replicate k sep @ q)"
  by (cases k) auto

lemma initial_slashes_pos: "startswith_sep p \<Longrightarrow> 0 < initial_slashes p"
  by (simp add: initial_slashes_def)

lemma startswith_sep_normpath:
  assumes "startswith_sep p"
  shows "startswith_sep (normpath p)"
proof -
  let ?k = "initial_slashes p"
  let ?q = "replicate ?k sep @ join_sep (norm_comps ?k [] (split_sep p))"
  from assms have k: "0 < ?k" by (rule initial_slashes_pos)
  then have q: "startswith_sep ?q" by (rule startswith_sep_replicate)
  from assms have "p \<noteq> []" by auto
  with k have "normpath p = ?q" by (simp add: normpath_def Let_def)
  with q show ?thesis by simp
qed

lemma startswith_sep_abspath: "startswith_sep (abspath h p)"
  unfolding abspath_def
  by (rule startswith_sep_normpath) (auto simp: join_def getcwd_def)

lemma search_self: "self (snd (search h n items s)) = self s"
  by (induction h n items s rule: search.induct) auto

lemma read_file_by_path_state: "snd (read_file_by_path h path s) = s"
  by (simp add: read_file_by_path_def Let_def split: sum.split error.split)

lemma list_directory_state: "snd (list_directory h path s) = s"
  by (simp add: list_directory_def Let_def split: sum.split error.split)

text \<open>
  C6. The root directory that \<^verbatim>\<open>__init__\<close> computes is an absolute path (it starts with
  \<^verbatim>\<open>/\<close>), whatever the module's \<^verbatim>\<open>__file__\<close> and the working directory are, and each
  of the three operations returns the plugin object as it received it.
\<close>

theorem root_dir_fixed:
  "startswith_sep (root_dir (init h file))
   \<and> self (snd (read_file_by_path h path s)) = self s
   \<and> self (snd (read_file_by_name h file_name s)) = self s
   \<and> self (snd (list_directory h path s)) = self s"
  by (simp add: init_def startswith_sep_abspath read_file_by_path_state
      list_directory_state read_file_by_name_def search_self)

theorem root_dir_fixed_witness:
  "root_dir (init demo ''plugins/repo_file_plugin.py'') = ''/repo''
   \<and> startswith_sep ''/repo''
   \<and> self (snd (read_file_by_path demo ''main.py'' s0)) = self s0
   \<and> self (snd (read_file_by_name demo ''notes.txt'' s0)) = self s0
   \<and> self (snd (list_directory demo ''plugins'' s0)) = self s0"
proof -
  have "root_dir (init demo ''plugins/repo_file_plugin.py'') = ''/repo''"
    by code_simp
  then show ?thesis
    using root_dir_fixed [of demo "''plugins/repo_file_plugin.py''" "''main.py''" s0 "''notes.txt''"]
      root_dir_fixed [of demo "''plugins/repo_file_plugin.py''" "''plugins''" s0 "''notes.txt''"]
    by simp
qed

subsection \<open>The loop over the walk\<close>

lemma search_cases:
  "((\<forall>it\<in>set items. n \<notin> set (snd (snd it))) \<and> search h n items s = (Inl (not_found_file n), s))
   \<or> (\<exists>pre root dirs files post.
         items = pre @ (root, dirs, files) # post
         \<and> (\<forall>it\<in>set pre. n \<notin> set (snd (snd it)))
         \<and> n \<in> set files
         \<and> search h n items s =
             (open_read h (join root n),
              s\<lparr>stdout := stdout s @ [''Found file '' @ n @ '' in '' @ root @ ''.'']\<rparr>))"
proof (induction h n items s rule: search.induct)
  case (1 h file_name s)
  then show ?case by simp
next
  case (2 h file_name root dirs files rest s)
  show ?case
  proof (cases "file_name \<in> set files")
    case True
    then have "(root, dirs, files) # rest = [] @ (root, dirs, files) # rest
        \<and> (\<forall>it\<in>set []. file_name \<notin> set (snd (snd it)))
        \<and> file_name \<in> set files
        \<and> search h file_name ((root, dirs, files) # rest) s =
             (open_read h (join root file_name),
              s\<lparr>stdout := stdout s @ [''Found file '' @ file_name @ '' in '' @ root @ ''.'']\<rparr>)"
      by simp
    then show ?thesis by blast
  next
    case False
    from 2 [OF False] show ?thesis
    proof
      assume "(\<forall>it\<in>set rest. file_name \<notin> set (snd (snd it))) \<and>
        search h file_name rest s = (Inl (not_found_file file_name), s)"
      with False show ?thesis by simp
    next
      assume "\<exists>pre root dirs files post.
       rest = pre @ (root, dirs, files) # post \<and>
       (\<forall>it\<in>set pre. file_name \<notin> set (snd (snd it))) \<and>
       file_name \<in> set files \<and>
       search h file_name rest s =
       (open_read h (join root file_name),
        s\<lparr>stdout := stdout s @ [''Found file '' @ file_name @ '' in '' @ root @ ''.'']\<rparr>)"
      then obtain pre r d f post where
        *: "rest = pre @ (r, d, f) # post" "\<forall>it\<in>set pre. file_name \<notin> set (snd (snd it))"
        "file_name \<in> set f"
        "search h file_name rest s =
          (open_read h (join r file_name),
           s\<lparr>stdout := stdout s @ [''Found file '' @ file_name @ '' in '' @ r @ ''.'']\<rparr>)"
        by blast
      with False have "(root, dirs, files) # rest = ((root, dirs, files) # pre) @ (r, d, f) # post
        \<and> (\<forall>it\<in>set ((root, dirs, files) # pre). file_name \<notin> set (snd (snd it)))
        \<and> file_name \<in> set f
        \<and> search h file_name ((root, dirs, files) # rest) s =
          (open_read h (join r file_name),
           s\<lparr>stdout := stdout s @ [''Found file '' @ file_name @ '' in '' @ r @ ''.'']\<rparr>)"
        by simp
      then show ?thesis by blast
    qed
  qed
qed

lemma search_first:
  "(\<forall>it\<in>set pre. n \<notin> set (snd (snd it))) \<Longrightarrow> n \<in> set files \<Longrightarrow>
   search h n (pre @ (root, dirs, files) # post) s =
     (open_read h (join root n),
      s\<lparr>stdout := stdout s @ [''Found file '' @ n @ '' in '' @ root @ ''.'']\<rparr>)"
  by (induction pre) auto

lemma read_file_by_path_error:
  "open_read h (join (root_dir (self s)) path) = Inl e \<Longrightarrow> \<not> is_not_found e \<Longrightarrow>
   fst (read_file_by_path h path s) = Inl e"
  by (cases e) (simp_all add: read_file_by_path_def Let_def is_not_found_def)

lemma list_directory_error:
  "listdir h (join (root_dir (self s)) path) = Inl e \<Longrightarrow> \<not> is_not_found e \<Longrightarrow>
   fst (list_directory h path s) = Inl e"
  by (cases e) (simp_all add: list_directory_def Let_def is_not_found_def)

subsection \<open>What is printed\<close>

text \<open>
  C10. When \<^verbatim>\<open>read_file_by_name\<close> returns a content, it has printed exactly one line,
  \<^verbatim>\<open>Found file <name> in <root>.\<close>, where \<^verbatim>\<open><root>\<close> is the first directory of the walk
  that lists the name among its files; \<^verbatim>\<open>read_file_by_path\<close> and \<^verbatim>\<open>list_directory\<close>
  print nothing, whatever they return.
\<close>

theorem read_file_by_name_prints:
  "(fst (read_file_by_name h file_name s) = Inr text \<longrightarrow>
      (\<exists>pre root dirs files post.
         os_walk h (root_dir (self s)) = pre @ (root, dirs, files) # post
         \<and> (\<forall>it\<in>set pre. file_name \<notin> set (snd (snd it)))
         \<and> file_name \<in> set files
         \<and> stdout (snd (read_file_by_name h file_name s)) =
             stdout s @ [''Found file '' @ file_name @ '' in '' @ root @ ''.'']))
   \<and> stdout (snd (read_file_by_path h path s)) = stdout s
   \<and> stdout (snd (list_directory h path s)) = stdout s"
proof -
  have "\<exists>pre root dirs files post.
         os_walk h (root_dir (self s)) = pre @ (root, dirs, files) # post
         \<and> (\<forall>it\<in>set pre. file_name \<notin> set (snd (snd it)))
         \<and> file_name \<in> set files
         \<and> stdout (snd (read_file_by_name h file_name s)) =
             stdout s @ [''Found file '' @ file_name @ '' in '' @ root @ ''.'']"
    if ok: "fst (read_file_by_name h file_name s) = Inr text"
  proof -
    from search_cases [of "os_walk h (root_dir (self s))" file_name h s] ok
    obtain pre root dirs files post where
      "os_walk h (root_dir (self s)) = pre @ (root, dirs, files) # post"
      "\<forall>it\<in>set pre. file_name \<notin> set (snd (snd it))"
      "file_name \<in> set files"
      "search h file_name (os_walk h (root_dir (self s))) s =
             (open_read h (join root file_name),
              s\<lparr>stdout := stdout s @ [''Found file '' @ file_name @ '' in '' @ root @ ''.'']\<rparr>)"
      by (auto simp: read_file_by_name_def)
    then show ?thesis
      unfolding read_file_by_name_def by (intro exI [of _ pre] exI [of _ root] exI [of _ dirs] exI [of _ files] exI [of _ post]) simp
  qed
  then show ?thesis
    by (simp add: read_file_by_path_state list_directory_state)
qed

theorem read_file_by_name_prints_witness:
  "fst (read_file_by_name demo ''notes.txt'' s0) = Inr ''first''
   \<and> stdout (snd (read_file_by_name demo ''notes.txt'' s0)) =
       stdout s0 @ [''Found file notes.txt in /repo/plugins.'']
   \<and> stdout (snd (read_file_by_path demo ''main.py'' s0)) = stdout s0
   \<and> stdout (snd (list_directory demo ''plugins'' s0)) = stdout s0"
proof -
  have "read_file_by_name demo ''notes.txt'' s0 =
      (Inr ''first'', s0\<lparr>stdout := stdout s0 @ [''Found file notes.txt in /repo/plugins.'']\<rparr>)"
    by code_simp
  then show ?thesis
    using read_file_by_name_prints [of demo "''notes.txt''" s0 "''first''" "''main.py''"]
      read_file_by_name_prints [of demo "''notes.txt''" s0 "''first''" "''plugins''"]
    by simp
qed

subsection \<open>Errors other than not-found\<close>

text \<open>
  C7. An error of \<^verbatim>\<open>open\<close>, \<^verbatim>\<open>read\<close> or \<^verbatim>\<open>os.listdir\<close> that is not a
  \<^verbatim>\<open>FileNotFoundError\<close> is the result of \<^verbatim>\<open>read_file_by_path\<close> and of
  \<^verbatim>\<open>list_directory\<close>, unchanged; every error of the \<^verbatim>\<open>open\<close> in
  \<^verbatim>\<open>read_file_by_name\<close> is its result, unchanged. In particular reading a path that
  names a directory raises \<^verbatim>\<open>IsADirectoryError\<close>, reading a file or listing a directory
  that the process may not use raises \<^verbatim>\<open>PermissionError\<close>, and listing a regular file
  raises \<^verbatim>\<open>NotADirectoryError\<close>.
\<close>

theorem other_errors_propagate:
  "(open_read h (join (root_dir (self s)) path) = Inl e \<and> \<not> is_not_found e \<longrightarrow>
      fst (read_file_by_path h path s) = Inl e)
   \<and> (listdir h (join (root_dir (self s)) path) = Inl e \<and> \<not> is_not_found e \<longrightarrow>
      fst (list_directory h path s) = Inl e)
   \<and> (os_walk h (root_dir (self s)) = pre @ (root, dirs, files) # post
      \<and> (\<forall>it\<in>set pre. file_name \<notin> set (snd (snd it))) \<and> file_name \<in> set files
      \<and> open_read h (join root file_name) = Inl e \<longrightarrow>
      fst (read_file_by_name h file_name s) = Inl e)
   \<and> (resolve h (join (root_dir (self s)) path) = Inr loc
      \<and> node_at (tree h) loc = Some (Dir True es) \<longrightarrow>
      fst (read_file_by_path h path s) = Inl (IsADirectoryError (join (root_dir (self s)) path)))
   \<and> (resolve h (join (root_dir (self s)) path) = Inr loc
      \<and> node_at (tree h) loc = Some (File False bs) \<longrightarrow>
      fst (read_file_by_path h path s) = Inl (PermissionError (join (root_dir (self s)) path)))
   \<and> (resolve h (join (root_dir (self s)) path) = Inr loc
      \<and> node_at (tree h) loc = Some (Dir False es) \<longrightarrow>
      fst (list_directory h path s) = Inl (PermissionError (join (root_dir (self s)) path)))
   \<and> (resolve h (join (root_dir (self s)) path) = Inr loc
      \<and> node_at (tree h) loc = Some (File ok bs) \<longrightarrow>
      fst (list_directory h path s) = Inl (NotADirectoryError (join (root_dir (self s)) path)))"
proof (intro conjI impI)
  assume "open_read h (join (root_dir (self s)) path) = Inl e \<and> \<not> is_not_found e"
  then show "fst (read_file_by_path h path s) = Inl e"
    by (simp add: read_file_by_path_error)
next
  assume "listdir h (join (root_dir (self s)) path) = Inl e \<and> \<not> is_not_found e"
  then show "fst (list_directory h path s) = Inl e"
    by (simp add: list_directory_error)
next
  assume "os_walk h (root_dir (self s)) = pre @ (root, dirs, files) # post
      \<and> (\<forall>it\<in>set pre. file_name \<notin> set (snd (snd it))) \<and> file_name \<in> set files
      \<and> open_read h (join root file_name) = Inl e"
  then show "fst (read_file_by_name h file_name s) = Inl e"
    by (simp add: read_file_by_name_def search_first)
next
  assume "resolve h (join (root_dir (self s)) path) = Inr loc
      \<and> node_at (tree h) loc = Some (Dir True es)"
  then have "open_read h (join (root_dir (self s)) path)
      = Inl (IsADirectoryError (join (root_dir (self s)) path))"
    by (simp add: open_read_def read_at_def)
  then show "fst (read_file_by_path h path s)
      = Inl (IsADirectoryError (join (root_dir (self s)) path))"
    by (rule read_file_by_path_error) (simp add: is_not_found_def)
next
  assume "resolve h (join (root_dir (self s)) path) = Inr loc
      \<and> node_at (tree h) loc = Some (File False bs)"
  then have "open_read h (join (root_dir (self s)) path)
      = Inl (PermissionError (join (root_dir (self s)) path))"
    by (simp add: open_read_def read_at_def)
  then show "fst (read_file_by_path h path s)
      = Inl (PermissionError (join (root_dir (self s)) path))"
    by (rule read_file_by_path_error) (simp add: is_not_found_def)
next
  assume "resolve h (join (root_dir (self s)) path) = Inr loc
      \<and> node_at (tree h) loc = Some (Dir False es)"
  then have "listdir h (join (root_dir (self s)) path)
      = Inl (PermissionError (join (root_dir (self s)) path))"
    by (simp add: listdir_def)
  then show "fst (list_directory h path s)
      = Inl (PermissionError (join (root_dir (self s)) path))"
    by (rule list_directory_error) (simp add: is_not_found_def)
next
  assume "resolve h (join (root_dir (self s)) path) = Inr loc
      \<and> node_at (tree h) loc = Some (File ok bs)"
  then have "listdir h (join (root_dir (self s)) path)
      = Inl (NotADirectoryError (join (root_dir (self s)) path))"
    by (simp add: listdir_def)
  then show "fst (list_directory h path s)
      = Inl (NotADirectoryError (join (root_dir (self s)) path))"
    by (rule list_directory_error) (simp add: is_not_found_def)
qed

theorem other_errors_propagate_witness:
  "open_read demo (join (root_dir (self s0)) ''plugins'') = Inl (IsADirectoryError ''/repo/plugins'')
   \<and> \<not> is_not_found (IsADirectoryError ''/repo/plugins'')
   \<and> fst (read_file_by_path demo ''plugins'' s0) = Inl (IsADirectoryError ''/repo/plugins'')
   \<and> fst (read_file_by_path demo ''private.key'' s0) = Inl (PermissionError ''/repo/private.key'')
   \<and> fst (read_file_by_name demo ''private.key'' s0) = Inl (PermissionError ''/repo/private.key'')
   \<and> listdir demo (join (root_dir (self s0)) ''locked'') = Inl (PermissionError ''/repo/locked'')
   \<and> fst (list_directory demo ''locked'' s0) = Inl (PermissionError ''/repo/locked'')
   \<and> fst (list_directory demo ''main.py'' s0) = Inl (NotADirectoryError ''/repo/main.py'')"
proof -
  have a: "open_read demo (join (root_dir (self s0)) ''plugins'') = Inl (IsADirectoryError ''/repo/plugins'')"
    by code_simp
  have b: "\<not> is_not_found (IsADirectoryError ''/repo/plugins'')"
    by (simp add: is_not_found_def)
  have c: "listdir demo (join (root_dir (self s0)) ''locked'') = Inl (PermissionError ''/repo/locked'')"
    by code_simp
  have d: "fst (read_file_by_path demo ''private.key'' s0) = Inl (PermissionError ''/repo/private.key'')"
    by code_simp
  have e: "fst (read_file_by_name demo ''private.key'' s0) = Inl (PermissionError ''/repo/private.key'')"
    by code_simp
  have f: "fst (list_directory demo ''main.py'' s0) = Inl (NotADirectoryError ''/repo/main.py'')"
    by code_simp
  have g: "\<not> is_not_found (PermissionError ''/repo/locked'')"
    by (simp add: is_not_found_def)
  from other_errors_propagate [of demo s0 "''plugins''" "IsADirectoryError ''/repo/plugins''"] a b
  have 1: "fst (read_file_by_path demo ''plugins'' s0) = Inl (IsADirectoryError ''/repo/plugins'')"
    by blast
  from other_errors_propagate [of demo s0 "''locked''" "PermissionError ''/repo/locked''"] c g
  have 2: "fst (list_directory demo ''locked'' s0) = Inl (PermissionError ''/repo/locked'')"
    by blast
  from a b c d e f 1 2 show ?thesis by blast
qed

subsection \<open>The command line\<close>

text \<open>
  C8. When the first agent authored a message of its history, \<^verbatim>\<open>main\<close> prints one line
  \<^verbatim>\<open>==== <name> just responded ====\<close> for each response, in order, then
  \<^verbatim>\<open>Final content:\<close> and the content of the first message of the history that carries
  the agent's name, and ends normally. When the history is in descending order (the
  reverse of the chronological order), that message is the agent's most recent one.
\<close>

theorem main_prints:
  "filter (\<lambda>message. name message = Some agent_name) messages \<noteq> [] \<Longrightarrow>
   main agent_name responses messages =
     (map responded responses
        @ [''Final content:'',
           content (hd (filter (\<lambda>message. name message = Some agent_name) messages))],
      Inr ())
   \<and> (\<forall>chronological. messages = rev chronological \<longrightarrow>
         hd (filter (\<lambda>message. name message = Some agent_name) messages) =
         last (filter (\<lambda>message. name message = Some agent_name) chronological))"
proof (intro conjI allI impI)
  assume ne: "filter (\<lambda>message. name message = Some agent_name) messages \<noteq> []"
  then show "main agent_name responses messages =
     (map responded responses
        @ [''Final content:'',
           content (hd (filter (\<lambda>message. name message = Some agent_name) messages))],
      Inr ())"
    by (cases "filter (\<lambda>message. name message = Some agent_name) messages")
      (simp_all add: main_def Let_def)
  fix chronological
  assume "messages = rev chronological"
  with ne show "hd (filter (\<lambda>message. name message = Some agent_name) messages) =
         last (filter (\<lambda>message. name message = Some agent_name) chronological)"
    by (simp add: rev_filter [symmetric] hd_rev)
qed

theorem main_prints_witness:
  "filter (\<lambda>message. name message = Some ''ContentCreationAgent'') (rev team) \<noteq> []
   \<and> main ''ContentCreationAgent'' team (rev team) =
       ([''==== ContentCreationAgent just responded ===='',
         ''==== CodeValidationAgent just responded ===='',
         ''==== ContentCreationAgent just responded ===='',
         ''==== UserAgent just responded ===='',
         ''Final content:'', ''final''], Inr ())
   \<and> last (filter (\<lambda>message. name message = Some ''ContentCreationAgent'') team)
       = \<lparr>name = Some ''ContentCreationAgent'', content = ''final''\<rparr>"
proof -
  have ne: "filter (\<lambda>message. name message = Some ''ContentCreationAgent'') (rev team) \<noteq> []"
    by (simp add: team_def)
  from main_prints [OF ne, of team] show ?thesis
    by (simp add: team_def responded_def)
qed

text \<open>
  C9. When no message of the history carries the first agent's name, \<^verbatim>\<open>main\<close> raises
  \<^verbatim>\<open>IndexError\<close> at \<^verbatim>\<open>content_history[0]\<close>: it has printed the response lines and the
  header \<^verbatim>\<open>Final content:\<close>, and no content after it.
\<close>

theorem main_index_error:
  "filter (\<lambda>message. name message = Some agent_name) messages = [] \<Longrightarrow>
   main agent_name responses messages =
     (map responded responses @ [''Final content:''], Inl IndexError)"
  by (simp add: main_def Let_def)

theorem main_index_error_witness:
  "filter (\<lambda>message. name message = Some ''Writer'') team = []
   \<and> main ''Writer'' team team =
       ([''==== ContentCreationAgent just responded ===='',
         ''==== CodeValidationAgent just responded ===='',
         ''==== ContentCreationAgent just responded ===='',
         ''==== UserAgent just responded ===='',
         ''Final content:''], Inl IndexError)"
proof -
  have e: "filter (\<lambda>message. name message = Some ''Writer'') team = []"
    by (simp add: team_def)
  from main_index_error [OF e, of team] show ?thesis
    by (simp add: team_def responded_def)
qed

subsection \<open>Paths and their resolution\<close>

lemma split_sep_not_Nil: "split_sep p \<noteq> []"
  by (induction p) (auto split: list.split)

lemma split_sep_append_sep: "split_sep (a @ sep # b) = split_sep a @ split_sep b"
  by (induction a) (auto split: list.split simp: split_sep_not_Nil)

lemma split_sep_no_sep: "sep \<notin> set n \<Longrightarrow> split_sep n = [n]"
  by (induction n) auto

lemma split_sep_snoc_sep: "split_sep (a @ [sep]) = split_sep a @ [[]]"
  using split_sep_append_sep [of a "[]"] by simp

lemma steps_append:
  "steps t loc (xs @ ys) = (case steps t loc xs of Inl e \<Rightarrow> Inl e | Inr l \<Rightarrow> steps t l ys)"
  by (induction xs arbitrary: loc) (auto split: sum.split)

lemma step_stay: "step t loc [] = Inr l \<Longrightarrow> l = loc"
  by (auto simp: step_def split: option.splits node.splits if_splits)

lemma startswith_sep_append: "a \<noteq> [] \<Longrightarrow> startswith_sep (a @ b) = startswith_sep a"
  by (cases a) auto

lemma resolve_join:
  assumes r: "resolve h a = Inr loc" and b: "\<not> startswith_sep b"
  shows "resolve h (join a b) = steps (tree h) loc (split_sep b)"
proof -
  from r have ne: "a \<noteq> []" by (auto simp: resolve_def)
  let ?start = "if startswith_sep a then [] else cwd h"
  from r ne have ra: "steps (tree h) ?start (split_sep a) = Inr loc"
    by (simp add: resolve_def)
  show ?thesis
  proof (cases "endswith_sep a")
    case True
    with ne obtain a' where a': "a = a' @ [sep]"
      by (metis endswith_sep_def append_butlast_last_id)
    from ra obtain l0 where l0: "steps (tree h) ?start (split_sep a') = Inr l0"
      and st: "step (tree h) l0 [] = Inr loc"
      by (auto simp: a' split_sep_snoc_sep steps_append split: sum.splits)
    from st have "l0 = loc" by (auto dest: step_stay)
    with l0 have l: "steps (tree h) ?start (split_sep a') = Inr loc" by simp
    have j: "join a b = a' @ sep # b"
      using True ne b by (simp add: join_def a')
    have s: "startswith_sep (join a b) = startswith_sep a"
      using ne b True by (simp add: join_def startswith_sep_append)
    have "join a b \<noteq> []" using j by simp
    then have "resolve h (join a b) = steps (tree h) ?start (split_sep (join a b))"
      by (simp add: resolve_def s)
    also have "\<dots> = steps (tree h) loc (split_sep b)"
      by (simp add: j split_sep_append_sep steps_append l)
    finally show ?thesis .
  next
    case False
    have j: "join a b = a @ sep # b"
      using False ne b by (simp add: join_def)
    have s: "startswith_sep (join a b) = startswith_sep a"
      using ne by (simp add: j startswith_sep_append)
    have "join a b \<noteq> []" using j by simp
    then have "resolve h (join a b) = steps (tree h) ?start (split_sep (join a b))"
      by (simp add: resolve_def s)
    also have "\<dots> = steps (tree h) loc (split_sep b)"
      by (simp add: j split_sep_append_sep steps_append ra)
    finally show ?thesis .
  qed
qed

lemma node_at_append:
  "node_at t loc = Some d \<Longrightarrow> node_at t (loc @ ns) = node_at d ns"
  by (induction t loc rule: node_at.induct) (auto split: option.splits)

lemma node_at_butlast: "node_at t loc = Some d \<Longrightarrow> \<exists>d'. node_at t (butlast loc) = Some d'"
  by (induction t loc rule: node_at.induct) (auto split: option.splits if_splits)

lemma step_node: "step t loc c = Inr l \<Longrightarrow> \<exists>d. node_at t l = Some d"
  by (auto simp: step_def node_at_append node_at_butlast split: option.splits node.splits if_splits)

lemma steps_node: "cs \<noteq> [] \<Longrightarrow> steps t loc cs = Inr l \<Longrightarrow> \<exists>d. node_at t l = Some d"
proof (induction cs arbitrary: loc)
  case Nil
  then show ?case by simp
next
  case (Cons c cs)
  then show ?case
    by (cases cs) (auto split: sum.splits dest: step_node)
qed

lemma resolve_node: "resolve h p = Inr l \<Longrightarrow> \<exists>d. node_at (tree h) l = Some d"
  by (auto simp: resolve_def split: if_splits dest: steps_node [OF split_sep_not_Nil])

subsection \<open>The walk meets the files where the tree has them\<close>

lemma find_append_cases:
  "find P (xs @ ys) = (case find P xs of None \<Rightarrow> find P ys | Some x \<Rightarrow> Some x)"
  by (induction xs) auto

lemma find_Pair_snd:
  "find (\<lambda>rf. snd rf = n) (map (Pair r) fs) = (if n \<in> set fs then Some (r, n) else None)"
  by (induction fs) auto

lemma walk_paths_Cons:
  "walk_paths ((root, dirs, files) # rest) = map (Pair root) files @ walk_paths rest"
  by (simp add: walk_paths_def)

lemma walk_paths_Nil: "walk_paths [] = []"
  by (simp add: walk_paths_def)

lemma walk_paths_append: "walk_paths (xs @ ys) = walk_paths xs @ walk_paths ys"
  by (simp add: walk_paths_def)

lemma search_find:
  "search h n items s =
     (case find (\<lambda>rf. snd rf = n) (walk_paths items) of
        None \<Rightarrow> (Inl (not_found_file n), s)
      | Some rf \<Rightarrow>
          (open_read h (join (fst rf) n),
           s\<lparr>stdout := stdout s @ [''Found file '' @ n @ '' in '' @ fst rf @ ''.'']\<rparr>))"
  by (induction h n items s rule: search.induct)
    (simp_all add: walk_paths_Nil walk_paths_Cons find_append_cases find_Pair_snd)

lemma wf_entries_member:
  "wf_entries es \<Longrightarrow> e \<in> set es \<Longrightarrow> valid_name (fst e) \<and> wf_node (snd e)"
  by (induction es) auto

lemma valid_name_step:
  assumes "node_at t loc = Some (Dir True es)" and "map_of es n = Some c" and "valid_name n"
  shows "step t loc n = Inr (loc @ [n])"
  using assms by (simp add: step_def valid_name_def)

lemma entry_resolves:
  assumes top: "resolve h topdir = Inr loc"
    and d: "node_at (tree h) loc = Some (Dir True es)"
    and dist: "distinct (map fst es)"
    and e: "e \<in> set es"
    and v: "valid_name (fst e)"
  shows "resolve h (join topdir (fst e)) = Inr (loc @ [fst e])"
    and "node_at (tree h) (loc @ [fst e]) = Some (snd e)"
proof -
  from dist e have m: "map_of es (fst e) = Some (snd e)"
    by (cases e) simp
  from v have ns: "\<not> startswith_sep (fst e)"
    by (cases "fst e") (auto simp: valid_name_def)
  from v have sp: "split_sep (fst e) = [fst e]"
    by (simp add: valid_name_def split_sep_no_sep)
  from resolve_join [OF top ns] show "resolve h (join topdir (fst e)) = Inr (loc @ [fst e])"
    by (simp add: sp valid_name_step [OF d m v])
  from node_at_append [OF d] m show "node_at (tree h) (loc @ [fst e]) = Some (snd e)"
    by simp
qed

lemma lands_mono: "prefix loc' loc \<Longrightarrow> lands h loc rf l \<Longrightarrow> lands h loc' rf l"
  by (auto simp: lands_def)

lemma walk_lands:
  "resolve h topdir = Inr loc \<Longrightarrow> node_at (tree h) loc = Some d \<Longrightarrow> wf_node d \<Longrightarrow>
     list_all2 (lands h loc) (walk_paths (walk topdir d)) (walk_files loc d)"
  and walk_dirs_lands:
  "resolve h topdir = Inr loc \<Longrightarrow> node_at (tree h) loc = Some (Dir True es0) \<Longrightarrow>
     distinct (map fst es0) \<Longrightarrow> set es \<subseteq> set es0 \<Longrightarrow> wf_entries es \<Longrightarrow>
     list_all2 (lands h loc) (walk_paths (walk_dirs topdir es)) (walk_files_in loc es)"
proof (induction topdir d and topdir es arbitrary: loc and loc es0 rule: walk_walk_dirs.induct)
  case (1 topdir ok bs)
  then show ?case by (simp add: walk_paths_Nil)
next
  case (2 topdir ok es)
  show ?case
  proof (cases ok)
    case False
    then show ?thesis by (simp add: walk_paths_Nil)
  next
    case True
    from 2 True have d: "node_at (tree h) loc = Some (Dir True es)"
      and dist: "distinct (map fst es)" and wf: "wf_entries es"
      by simp_all
    have files: "list_all2 (lands h loc)
        (map (Pair topdir) (map fst (filter (\<lambda>e. \<not> is_dir (snd e)) es)))
        (map (\<lambda>e. loc @ [fst e]) (filter (\<lambda>e. \<not> is_dir (snd e)) es))"
    proof -
      have "lands h loc (topdir, fst e) (loc @ [fst e])"
        if e: "e \<in> set es" and f: "\<not> is_dir (snd e)" for e
      proof -
        from wf e have v: "valid_name (fst e)" by (simp add: wf_entries_member)
        from f obtain ok' bs where "snd e = File ok' bs" by (cases "snd e") auto
        with entry_resolves [OF "2.prems"(1) d dist e v] show ?thesis
          by (simp add: lands_def)
      qed
      then show ?thesis
        by (simp add: list_all2_map1 list_all2_map2 list_all2_same)
    qed
    from "2.IH" [OF _ "2.prems"(1) d dist _ wf] True
    have "list_all2 (lands h loc) (walk_paths (walk_dirs topdir es)) (walk_files_in loc es)"
      by simp
    with files True show ?thesis
      by (simp add: walk_paths_Cons list_all2_appendI)
  qed
next
  case (3 topdir)
  then show ?case by (simp add: walk_paths_Nil)
next
  case (4 topdir e es)
  from "4.prems" have e: "e \<in> set es0" and sub: "set es \<subseteq> set es0"
    and v: "valid_name (fst e)" and wfe: "wf_node (snd e)" and wf: "wf_entries es"
    by auto
  have rest: "list_all2 (lands h loc) (walk_paths (walk_dirs topdir es)) (walk_files_in loc es)"
    by (rule "4.IH"(2) [OF "4.prems"(1) "4.prems"(2) "4.prems"(3) sub wf])
  show ?case
  proof (cases "is_dir (snd e)")
    case False
    with rest show ?thesis by (simp add: walk_paths_Nil)
  next
    case True
    note er = entry_resolves [OF "4.prems"(1) "4.prems"(2) "4.prems"(3) e v]
    from "4.IH"(1) [OF True er wfe]
    have "list_all2 (lands h (loc @ [fst e]))
        (walk_paths (walk (join topdir (fst e)) (snd e))) (walk_files (loc @ [fst e]) (snd e))" .
    then have "list_all2 (lands h loc)
        (walk_paths (walk (join topdir (fst e)) (snd e))) (walk_files (loc @ [fst e]) (snd e))"
      by (rule list_all2_mono) (rule lands_mono [of loc "loc @ [fst e]"], simp_all)
    with rest True show ?thesis
      by (simp add: walk_paths_append list_all2_appendI)
  qed
qed

lemma wf_node_at: "wf_node t \<Longrightarrow> node_at t loc = Some d \<Longrightarrow> wf_node d"
proof (induction t loc rule: node_at.induct)
  case (1 t)
  then show ?case by simp
next
  case (2 ok bs n ns)
  then show ?case by simp
next
  case (3 ok es n ns)
  from "3.prems" obtain c where c: "map_of es n = Some c" and d: "node_at c ns = Some d"
    by (auto split: option.splits)
  from c have "(n, c) \<in> set es" by (rule map_of_SomeD)
  with "3.prems" have "wf_node c" by (auto dest: wf_entries_member)
  with "3.IH" c d show ?case by simp
qed

lemma find_list_all2:
  assumes "list_all2 R xs ys" and "\<And>x y. R x y \<Longrightarrow> P x = Q y"
  shows "(find P xs = None \<and> find Q ys = None)
         \<or> (\<exists>x y. find P xs = Some x \<and> find Q ys = Some y \<and> R x y)"
  using assms by (induction rule: list_all2_induct) auto

lemma read_file_by_name_cases:
  assumes wf: "wf_node (tree h)"
  shows "(first_match h (root_dir (self s)) n = None
          \<and> fst (read_file_by_name h n s) = Inl (not_found_file n))
       \<or> (\<exists>l root ok bs. first_match h (root_dir (self s)) n = Some l
            \<and> resolve h (join root n) = Inr l
            \<and> node_at (tree h) l = Some (File ok bs)
            \<and> fst (read_file_by_name h n s) = read_at h (join root n) l)"
proof (cases "resolve h (root_dir (self s))")
  case (Inl e)
  then show ?thesis
    by (simp add: first_match_def read_file_by_name_def os_walk_def)
next
  case (Inr loc)
  from resolve_node [OF Inr] obtain d where d: "node_at (tree h) loc = Some d" ..
  from wf d have "wf_node d" by (rule wf_node_at)
  with Inr d have la: "list_all2 (lands h loc)
      (walk_paths (walk (root_dir (self s)) d)) (walk_files loc d)"
    by (rule walk_lands)
  have fm: "first_match h (root_dir (self s)) n = find (\<lambda>l. last l = n) (walk_files loc d)"
    by (simp add: first_match_def Inr d)
  have rd: "read_file_by_name h n s = search h n (walk (root_dir (self s)) d) s"
    by (simp add: read_file_by_name_def os_walk_def Inr d)
  from find_list_all2 [OF la, of "\<lambda>rf. snd rf = n" "\<lambda>l. last l = n"]
  consider "find (\<lambda>rf. snd rf = n) (walk_paths (walk (root_dir (self s)) d)) = None"
      "find (\<lambda>l. last l = n) (walk_files loc d) = None"
    | rf l where "find (\<lambda>rf. snd rf = n) (walk_paths (walk (root_dir (self s)) d)) = Some rf"
      "find (\<lambda>l. last l = n) (walk_files loc d) = Some l" "lands h loc rf l"
    by (auto simp: lands_def)
  then show ?thesis
  proof cases
    case 1
    then show ?thesis by (simp add: fm rd search_find)
  next
    case 2
    from 2(1) have "snd rf = n" by (auto simp: find_Some_iff)
    with 2(3) obtain ok bs where "resolve h (join (fst rf) n) = Inr l"
      and "node_at (tree h) l = Some (File ok bs)"
      by (auto simp: lands_def)
    moreover from this have "fst (read_file_by_name h n s) = read_at h (join (fst rf) n) l"
      by (simp add: rd search_find 2(1) open_read_def)
    ultimately show ?thesis using 2(2) fm by auto
  qed
qed


lemma universal_newlines_no_CR: "CR \<notin> set cs \<Longrightarrow> universal_newlines cs = cs"
  by (induction cs rule: universal_newlines.induct) auto

lemma open_read_file:
  "resolve h p = Inr loc \<Longrightarrow> node_at (tree h) loc = Some (File True bs) \<Longrightarrow>
   decode h bs = Some text \<Longrightarrow> open_read h p = Inr (universal_newlines text)"
  by (simp add: open_read_def read_at_def)

lemma not_in_map_fst: "(\<And>e. e \<in> set es \<Longrightarrow> fst e \<noteq> x) \<Longrightarrow> x \<notin> set (map fst es)"
  by auto

subsection \<open>Reading by path\<close>

text \<open>
  C1 (as amended). When the joined path names a regular file that the process may read
  and whose bytes decode under the default encoding, \<^verbatim>\<open>read_file_by_path\<close> returns the
  decoded text with every \<^verbatim>\<open>\r\n\<close> and every other \<^verbatim>\<open>\r\<close> turned into \<^verbatim>\<open>\n\<close>; when
  the text holds no \<^verbatim>\<open>\r\<close>, it returns the text as it is.
\<close>

theorem read_file_by_path_text:
  "resolve h (join (root_dir (self s)) path) = Inr loc \<Longrightarrow>
   node_at (tree h) loc = Some (File True bs) \<Longrightarrow>
   decode h bs = Some text \<Longrightarrow>
   fst (read_file_by_path h path s) = Inr (universal_newlines text)
   \<and> (CR \<notin> set text \<longrightarrow> fst (read_file_by_path h path s) = Inr text)"
  by (simp add: read_file_by_path_def Let_def open_read_file universal_newlines_no_CR)

theorem read_file_by_path_text_witness:
  "resolve demo (join (root_dir (self s0)) ''plugins/notes.txt'') = Inr [''repo'', ''plugins'', ''notes.txt'']
   \<and> node_at (tree demo) [''repo'', ''plugins'', ''notes.txt''] = Some (File True ''first'')
   \<and> decode demo ''first'' = Some ''first''
   \<and> CR \<notin> set ''first''
   \<and> fst (read_file_by_path demo ''plugins/notes.txt'' s0) = Inr ''first''"
proof -
  have a: "resolve demo (join (root_dir (self s0)) ''plugins/notes.txt'') = Inr [''repo'', ''plugins'', ''notes.txt'']"
    by code_simp
  have b: "node_at (tree demo) [''repo'', ''plugins'', ''notes.txt''] = Some (File True ''first'')"
    by code_simp
  have c: "decode demo ''first'' = Some ''first''"
    by code_simp
  have d: "CR \<notin> set ''first''"
    by code_simp
  from read_file_by_path_text [OF a b c] d
  have "fst (read_file_by_path demo ''plugins/notes.txt'' s0) = Inr ''first''"
    by blast
  with a b c d show ?thesis by blast
qed

text \<open>
  C1 as stated fails: \<^verbatim>\<open>/repo/main.py\<close> holds \<^verbatim>\<open>import os\r\nrun()\<close>, and
  \<^verbatim>\<open>read_file_by_path\<close> returns \<^verbatim>\<open>import os\nrun()\<close>, which is not the content of the file.
\<close>

theorem read_file_by_path_exact_counterexample:
  "resolve demo (join (root_dir (self s0)) ''main.py'') = Inr [''repo'', ''main.py'']
   \<and> node_at (tree demo) [''repo'', ''main.py''] = Some (File True (''import os'' @ [CR, LF] @ ''run()''))
   \<and> fst (read_file_by_path demo ''main.py'' s0) = Inr (''import os'' @ [LF] @ ''run()'')
   \<and> fst (read_file_by_path demo ''main.py'' s0) \<noteq> Inr (''import os'' @ [CR, LF] @ ''run()'')"
  by code_simp

subsection \<open>Listing a directory\<close>

text \<open>
  C4 (as amended). When the joined path names a directory that the process may list,
  \<^verbatim>\<open>list_directory\<close> returns the names of its entries, in listing order, joined by
  \<^verbatim>\<open>\n\<close>. The names are exactly the names of the nodes one level below the directory, and
  in a well-formed tree \<^verbatim>\<open>.\<close> and \<^verbatim>\<open>..\<close> are not among them.
\<close>

theorem list_directory_entries:
  "resolve h (join (root_dir (self s)) path) = Inr loc \<Longrightarrow>
   node_at (tree h) loc = Some (Dir True es) \<Longrightarrow>
   fst (list_directory h path s) = Inr (join_lines (map fst es))
   \<and> (\<forall>n. n \<in> set (map fst es) \<longleftrightarrow> (\<exists>c. node_at (tree h) (loc @ [n]) = Some c))
   \<and> (wf_node (tree h) \<longrightarrow> ''.'' \<notin> set (map fst es) \<and> ''..'' \<notin> set (map fst es))"
proof (intro conjI allI impI)
  assume r: "resolve h (join (root_dir (self s)) path) = Inr loc"
    and d: "node_at (tree h) loc = Some (Dir True es)"
  then show "fst (list_directory h path s) = Inr (join_lines (map fst es))"
    by (simp add: list_directory_def listdir_def Let_def)
  show "n \<in> set (map fst es) \<longleftrightarrow> (\<exists>c. node_at (tree h) (loc @ [n]) = Some c)" for n
  proof -
    have "node_at (tree h) (loc @ [n]) = map_of es n"
      by (simp add: node_at_append [OF d] split: option.split)
    moreover have "n \<in> set (map fst es) \<longleftrightarrow> map_of es n \<noteq> None"
      by (simp add: map_of_eq_None_iff)
    ultimately show ?thesis by auto
  qed
  assume "wf_node (tree h)"
  then have "wf_node (Dir True es)" using d by (rule wf_node_at)
  then have v: "valid_name (fst e)" if "e \<in> set es" for e
    using that by (auto dest: wf_entries_member)
  have nd: "fst e \<noteq> ''.''" "fst e \<noteq> ''..''" if "e \<in> set es" for e
    using v [OF that] by (simp_all add: valid_name_def)
  show "''.'' \<notin> set (map fst es)"
    by (rule not_in_map_fst) (rule nd(1))
  show "''..'' \<notin> set (map fst es)"
    by (rule not_in_map_fst) (rule nd(2))
qed

theorem list_directory_entries_witness:
  "resolve demo (join (root_dir (self s0)) ''plugins'') = Inr [''repo'', ''plugins'']
   \<and> node_at (tree demo) [''repo'', ''plugins''] =
       Some (Dir True [(''repo_file_plugin.py'', File True ''class RepoFilePlugin''),
                       (''notes.txt'', File True ''first''),
                       (''README.md'', File True ''plugins'')])
   \<and> wf_node (tree demo)
   \<and> fst (list_directory demo ''plugins'' s0) =
       Inr (''repo_file_plugin.py'' @ [LF] @ ''notes.txt'' @ [LF] @ ''README.md'')"
proof -
  have a: "resolve demo (join (root_dir (self s0)) ''plugins'') = Inr [''repo'', ''plugins'']"
    by code_simp
  have b: "node_at (tree demo) [''repo'', ''plugins''] =
       Some (Dir True [(''repo_file_plugin.py'', File True ''class RepoFilePlugin''),
                       (''notes.txt'', File True ''first''),
                       (''README.md'', File True ''plugins'')])"
    by code_simp
  have c: "wf_node (tree demo)"
    by code_simp
  from list_directory_entries [OF a b]
  have "fst (list_directory demo ''plugins'' s0) =
       Inr (''repo_file_plugin.py'' @ [LF] @ ''notes.txt'' @ [LF] @ ''README.md'')"
    by simp
  with a b c show ?thesis by blast
qed

text \<open>
  C4 as stated fails: \<^verbatim>\<open>/repo/locked\<close> is an existing directory that the process may not
  list, and \<^verbatim>\<open>list_directory\<close> raises \<^verbatim>\<open>PermissionError\<close> instead of returning its entry.
\<close>

theorem list_directory_every_counterexample:
  "resolve demo (join (root_dir (self s0)) ''locked'') = Inr [''repo'', ''locked'']
   \<and> node_at (tree demo) [''repo'', ''locked''] = Some (Dir False [(''hidden.txt'', File True ''h'')])
   \<and> fst (list_directory demo ''locked'' s0) = Inl (PermissionError ''/repo/locked'')
   \<and> fst (list_directory demo ''locked'' s0) \<noteq> Inr ''hidden.txt''"
  by code_simp

subsection \<open>Reading by name\<close>

text \<open>
  C5. In a well-formed tree \<^verbatim>\<open>read_file_by_name\<close> reads the first file of that name in
  the order of a top-down walk from the root directory: when there is none it raises the
  not-found error; otherwise its result is the result of reading the file at that first
  location, through a path that resolves to it, and it is the text of that file when the
  file is readable and decodes.
\<close>

theorem read_file_by_name_first_match:
  "wf_node (tree h) \<Longrightarrow>
   (first_match h (root_dir (self s)) file_name = None \<longrightarrow>
      fst (read_file_by_name h file_name s) = Inl (not_found_file file_name))
   \<and> (\<forall>l. first_match h (root_dir (self s)) file_name = Some l \<longrightarrow>
        (\<exists>root. resolve h (join root file_name) = Inr l
           \<and> fst (read_file_by_name h file_name s) = read_at h (join root file_name) l)
        \<and> (\<forall>bs cs. node_at (tree h) l = Some (File True bs) \<and> decode h bs = Some cs \<longrightarrow>
             fst (read_file_by_name h file_name s) = Inr (universal_newlines cs)))"
proof -
  assume wf: "wf_node (tree h)"
  from read_file_by_name_cases [OF wf, of s file_name]
  consider "first_match h (root_dir (self s)) file_name = None"
      "fst (read_file_by_name h file_name s) = Inl (not_found_file file_name)"
    | l root where "first_match h (root_dir (self s)) file_name = Some l"
      "resolve h (join root file_name) = Inr l"
      "fst (read_file_by_name h file_name s) = read_at h (join root file_name) l"
    by (elim disjE exE conjE)
  then show ?thesis
  proof cases
    case 1
    then show ?thesis by simp
  next
    case 2
    have "fst (read_file_by_name h file_name s) = Inr (universal_newlines cs)"
      if "node_at (tree h) l = Some (File True bs)" "decode h bs = Some cs" for bs cs
      using that 2(3) by (simp add: read_at_def)
    with 2 show ?thesis by auto
  qed
qed

theorem read_file_by_name_first_match_witness:
  "wf_node (tree demo)
   \<and> first_match demo (root_dir (self s0)) ''README.md'' = Some [''repo'', ''README.md'']
   \<and> node_at (tree demo) [''repo'', ''README.md''] = Some (File True ''top'')
   \<and> decode demo ''top'' = Some ''top''
   \<and> fst (read_file_by_name demo ''README.md'' s0) = Inr ''top''
   \<and> first_match demo (root_dir (self s0)) ''notes.txt'' = Some [''repo'', ''plugins'', ''notes.txt'']
   \<and> fst (read_file_by_name demo ''notes.txt'' s0) = Inr ''first''
   \<and> first_match demo (root_dir (self s0)) ''absent.txt'' = None
   \<and> fst (read_file_by_name demo ''absent.txt'' s0) = Inl (not_found_file ''absent.txt'')"
proof -
  have wf: "wf_node (tree demo)"
    by code_simp
  have a: "first_match demo (root_dir (self s0)) ''README.md'' = Some [''repo'', ''README.md'']"
    by code_simp
  have b: "node_at (tree demo) [''repo'', ''README.md''] = Some (File True ''top'')"
    by code_simp
  have c: "decode demo ''top'' = Some ''top''"
    by code_simp
  have d: "first_match demo (root_dir (self s0)) ''notes.txt'' = Some [''repo'', ''plugins'', ''notes.txt'']"
    by code_simp
  have e: "fst (read_file_by_name demo ''notes.txt'' s0) = Inr ''first''"
    by code_simp
  have f: "first_match demo (root_dir (self s0)) ''absent.txt'' = None"
    by code_simp
  from read_file_by_name_first_match [OF wf, of s0 "''README.md''"] a b c
  have 1: "fst (read_file_by_name demo ''README.md'' s0) = Inr (universal_newlines ''top'')"
    by blast
  have 2: "universal_newlines ''top'' = ''top''"
    by code_simp
  from read_file_by_name_first_match [OF wf, of s0 "''absent.txt''"] f
  have 3: "fst (read_file_by_name demo ''absent.txt'' s0) = Inl (not_found_file ''absent.txt'')"
    by blast
  from wf a b c d e f 1 2 3 show ?thesis by simp
qed

subsection \<open>The not-found error\<close>






subsection \<open>Leaving the root directory\<close>

text \<open>
  C2. The plugin is documented to read files from this repository, by a path relative to
  its root, and \<^verbatim>\<open>read_file_by_name\<close> opens only what the walk from the root directory
  finds. \<^verbatim>\<open>read_file_by_path\<close> and \<^verbatim>\<open>list_directory\<close> do not stay there: with the root
  directory \<^verbatim>\<open>/repo\<close>, the absolute path \<^verbatim>\<open>/etc/passwd\<close> is joined to itself and the
  relative path \<^verbatim>\<open>../etc/passwd\<close> climbs out, so \<^verbatim>\<open>read_file_by_path\<close> returns the content
  of a file that does not lie under the root directory, and \<^verbatim>\<open>list_directory\<close> of
  \<^verbatim>\<open>..\<close> lists the parent of the root directory.
\<close>

theorem path_leaves_root:
  "root_dir (self s0) = ''/repo''
   \<and> resolve demo (root_dir (self s0)) = Inr [''repo'']
   \<and> join (root_dir (self s0)) ''/etc/passwd'' = ''/etc/passwd''
   \<and> resolve demo (join (root_dir (self s0)) ''/etc/passwd'') = Inr [''etc'', ''passwd'']
   \<and> \<not> prefix [''repo''] [''etc'', ''passwd'']
   \<and> node_at (tree demo) [''etc'', ''passwd''] = Some (File True ''root:x:0'')
   \<and> fst (read_file_by_path demo ''/etc/passwd'' s0) = Inr ''root:x:0''
   \<and> join (root_dir (self s0)) ''../etc/passwd'' = ''/repo/../etc/passwd''
   \<and> resolve demo ''/repo/../etc/passwd'' = Inr [''etc'', ''passwd'']
   \<and> fst (read_file_by_path demo ''../etc/passwd'' s0) = Inr ''root:x:0''
   \<and> resolve demo (join (root_dir (self s0)) ''..'') = Inr []
   \<and> \<not> prefix [''repo''] []
   \<and> fst (list_directory demo ''..'' s0) = Inr (''etc'' @ [LF] @ ''repo'')"
  by code_simp

end
